theory Spec2Isabelle
  imports Main "HOL-Library.List_Lexorder"
begin

section \<open>badpubs: publications of an RDF feed that lack a PubMed identifier\<close>

text \<open>
  A shallow embedding of \<^verbatim>\<open>src/badpubs.py\<close> (Python 2). The program reads the
  triples of an RDF feed, indexes them by subject and predicate, keeps the subjects
  that have no PubMed identifier predicate, sorts them, and writes one record for
  each, as a plain line or as a CSV row, with or without a suggested identifier
  looked up at an external search service.
\<close>

subsection \<open>Text, bytes and dictionaries\<close>

text \<open>
  Python 2 has two string types. A \<^verbatim>\<open>unicode\<close> object is modelled as the list of
  its code points, a \<^verbatim>\<open>str\<close> object as a list of bytes (\<^typ>\<open>char\<close> is an
  8-bit character). The RDF terms of rdflib (\<^verbatim>\<open>URIRef\<close>, \<^verbatim>\<open>Literal\<close>) are
  subclasses of \<^verbatim>\<open>unicode\<close>; a term is modelled as its text, and \<^verbatim>\<open>cmp\<close> on
  two of them as the lexicographic order on lists of code points.
\<close>

type_synonym unicode = "nat list"

type_synonym bytes = "char list"

text \<open>A unicode literal with ASCII content, \<^verbatim>\<open>u'...'\<close>.\<close>

definition u :: "string \<Rightarrow> unicode" where
  "u s = map of_char s"

text \<open>
  A dictionary is an association list with one entry for each key. \<^verbatim>\<open>d.get(k, v)\<close>,
  \<^verbatim>\<open>d[k] = v\<close> and \<^verbatim>\<open>k in d\<close> are the three operations the program uses. The
  order of the entries is the order in which \<^verbatim>\<open>iteritems\<close> yields them; Python
  leaves it unspecified, so no theorem below relies on the order that \<open>dict_set\<close>
  happens to produce.
\<close>

type_synonym ('k, 'v) dict = "('k \<times> 'v) list"

definition dict_get :: "('k, 'v) dict \<Rightarrow> 'k \<Rightarrow> 'v \<Rightarrow> 'v" where
  "dict_get d k dflt = (case map_of d k of None \<Rightarrow> dflt | Some v \<Rightarrow> v)"

fun dict_set :: "('k, 'v) dict \<Rightarrow> 'k \<Rightarrow> 'v \<Rightarrow> ('k, 'v) dict" where
  "dict_set [] k v = [(k, v)]"
| "dict_set ((k', v') # d) k v =
     (if k' = k then (k, v) # d else (k', v') # dict_set d k v)"

definition dict_contains :: "('k, 'v) dict \<Rightarrow> 'k \<Rightarrow> bool" where
  "dict_contains d k = (map_of d k \<noteq> None)"

subsection \<open>The constants of the module\<close>

definition pubMedIDPredURI :: unicode where
  "pubMedIDPredURI = u ''http://edrn.nci.nih.gov/rdf/schema.rdf#pmid''"

definition titlePredURI :: unicode where
  "titlePredURI = u ''http://purl.org/dc/terms/title''"

definition creatorPredURI :: unicode where
  "creatorPredURI = u ''http://purl.org/dc/terms/author''"

text \<open>The two sentinels are written between U+00AB and U+00BB (guillemets).\<close>

definition NO_TITLE :: unicode where
  "NO_TITLE = [0xAB] @ u ''NO TITLE'' @ [0xBB]"

definition NO_AUTHORS :: unicode where
  "NO_AUTHORS = [0xAB] @ u ''NO AUTHORS'' @ [0xBB]"

subsection \<open>The statement index (\<^verbatim>\<open>parsePubs\<close>)\<close>

type_synonym triple = "unicode \<times> unicode \<times> unicode"

type_synonym predicates = "(unicode, unicode list) dict"

type_synonym statements = "(unicode, predicates) dict"

text \<open>
  The body of the loop \<^verbatim>\<open>for s, p, o in g\<close>. In the source \<^verbatim>\<open>predicates\<close> and
  \<^verbatim>\<open>objects\<close> are references: each is either the object already stored under its
  key or a fresh empty one, it is stored under its key, and \<^verbatim>\<open>objects.append(o)\<close>
  then changes the list that the two dictionaries hold. The model writes the
  values after the append, innermost first.
\<close>

definition add_statement :: "statements \<Rightarrow> triple \<Rightarrow> statements" where
  "add_statement stmts t =
     (case t of (s, p, o') \<Rightarrow>
        let predicates = dict_get stmts s [];
            objects = dict_get predicates p [];
            objects = objects @ [o'];
            predicates = dict_set predicates p objects
        in dict_set stmts s predicates)"

text \<open>The loop over the triples of the graph, in the order the graph yields them,
  from the empty dictionary.\<close>

definition index_triples :: "triple list \<Rightarrow> statements" where
  "index_triples g = foldl add_statement [] g"

subsection \<open>The gap detector (\<^verbatim>\<open>findMissingPubMedIDs\<close>)\<close>

fun findMissing_loop ::
  "(unicode \<times> predicates) list \<Rightarrow> (unicode \<times> predicates) list
     \<Rightarrow> (unicode \<times> predicates) list" where
  "findMissing_loop missing [] = missing"
| "findMissing_loop missing ((subject, predicates) # rest) =
     (if \<not> dict_contains predicates pubMedIDPredURI
      then findMissing_loop (missing @ [(subject, predicates)]) rest
      else findMissing_loop missing rest)"

definition findMissingPubMedIDs :: "statements \<Rightarrow> (unicode \<times> predicates) list" where
  "findMissingPubMedIDs stmts = findMissing_loop [] stmts"

subsection \<open>Encoding text\<close>

text \<open>
  \<^verbatim>\<open>Formatter.encode\<close> is \<^verbatim>\<open>s.encode('utf-8')\<close>: every code point becomes one
  to four bytes. Text is a list of Unicode scalar values (below \<open>0x110000\<close>).
\<close>

definition utf8 :: "nat \<Rightarrow> bytes" where
  "utf8 c =
     (if c < 0x80 then [char_of c]
      else if c < 0x800 then [char_of (0xC0 + c div 0x40), char_of (0x80 + c mod 0x40)]
      else if c < 0x10000 then
        [char_of (0xE0 + c div 0x1000), char_of (0x80 + c div 0x40 mod 0x40),
         char_of (0x80 + c mod 0x40)]
      else
        [char_of (0xF0 + c div 0x40000), char_of (0x80 + c div 0x1000 mod 0x40),
         char_of (0x80 + c div 0x40 mod 0x40), char_of (0x80 + c mod 0x40)])"

definition encode :: "unicode \<Rightarrow> bytes" where
  "encode s = concat (map utf8 s)"

text \<open>\<^verbatim>\<open>sep.join(xs)\<close>.\<close>

fun join :: "'a list \<Rightarrow> 'a list list \<Rightarrow> 'a list" where
  "join sep [] = []"
| "join sep [x] = x"
| "join sep (x # y # ys) = x @ sep @ join sep (y # ys)"

subsection \<open>Errors and the outside world\<close>

text \<open>
  The exceptions a run can raise. \<open>FetchError\<close> and \<open>ParseError\<close> come from reading
  the feed, \<open>LookupError\<close> from the request to the search service or from parsing
  its answer, \<open>IndexError\<close> from \<^verbatim>\<open>preds[_titlePredURI][0]\<close> on an empty list,
  \<open>UnicodeEncodeError\<close> from the conversion of a text with a code point above 127
  to \<^verbatim>\<open>str\<close> with the default codec, \<open>IOError\<close> from opening, writing or
  closing the output.
\<close>

datatype error =
  FetchError | ParseError | LookupError | IndexError | UnicodeEncodeError | IOError

text \<open>
  An XML document as \<^verbatim>\<open>etree.parse\<close> returns it: an element has a name and
  children, which are elements and text nodes, in document order. (Attributes,
  comments and processing instructions play no role in the query of the program.)
\<close>

datatype xml = Element unicode "xml list" | Text unicode

text \<open>
  What the program reads from outside, and what becomes of its output, is a
  parameter of the model:
  \<^item> \<open>feed url\<close> is the outcome of \<^verbatim>\<open>g.parse(rdflib.URLInputSource(url))\<close> followed by
    the iteration over \<^verbatim>\<open>g\<close>: an error, or the triples in the order of iteration;
  \<^item> \<open>esearch params\<close> is the outcome of \<^verbatim>\<open>etree.parse\<close> on the search URL built
    from the query parameters with \<^verbatim>\<open>urllib.urlencode\<close>: an error, or the document
    the service answers with;
  \<^item> \<open>writable path\<close> says whether \<^verbatim>\<open>open(path, 'wb')\<close> succeeds;
  \<^item> \<open>accepts out chunk\<close> says whether \<^verbatim>\<open>output.write(chunk)\<close> succeeds after the
    writes \<open>out\<close>;
  \<^item> \<open>closes out\<close> says whether \<^verbatim>\<open>output.close()\<close> succeeds after the writes
    \<open>out\<close>.
\<close>

record world =
  feed :: "bytes \<Rightarrow> error + triple list"
  esearch :: "(bytes \<times> bytes) list \<Rightarrow> error + xml"
  writable :: "bytes \<Rightarrow> bool"
  accepts :: "bytes list \<Rightarrow> bytes \<Rightarrow> bool"
  closes :: "bytes list \<Rightarrow> bool"

text \<open>
  \<^verbatim>\<open>output.write(chunk)\<close>: the chunk is added to the writes, or \<open>IOError\<close> is raised.
  (What a failed write leaves of its chunk is not modelled.)
\<close>

definition output_write :: "world \<Rightarrow> bytes list \<Rightarrow> bytes \<Rightarrow> error + bytes list" where
  "output_write w out chunk = (if accepts w out chunk then Inr (out @ [chunk]) else Inl IOError)"

subsection \<open>The formatters\<close>

datatype formatter =
  PlainFormatter | PlainLookupFormatter | CSVFormatter | CSVLookupFormatter

text \<open>
  \<^verbatim>\<open>csv.writer(output).writerow(row)\<close> with the default dialect (\<^verbatim>\<open>excel\<close>):
  delimiter \<^verbatim>\<open>,\<close>, quote character \<^verbatim>\<open>"\<close> doubled inside a quoted field, line
  terminator CR LF, minimal quoting. A field is quoted when it holds the delimiter,
  the quote character or a character of the line terminator, and when it is the
  empty only field of its row. Python 2 walks a \<^verbatim>\<open>str\<close> field as a C string, up
  to its first NUL byte. \<^verbatim>\<open>None\<close> is written as the empty field; a field that is
  neither \<^verbatim>\<open>str\<close> nor \<^verbatim>\<open>None\<close> is converted with \<^verbatim>\<open>str()\<close> first.
\<close>

definition csv_special :: "char \<Rightarrow> bool" where
  "csv_special c = (c = CHR '','' \<or> c = CHR 0x22 \<or> c = CHR 0x0D \<or> c = CHR 0x0A)"

definition csv_data :: "bytes \<Rightarrow> bytes" where
  "csv_data field = takeWhile (\<lambda>c. c \<noteq> CHR 0x00) field"

definition csv_double :: "bytes \<Rightarrow> bytes" where
  "csv_double d = concat (map (\<lambda>c. if c = CHR 0x22 then [CHR 0x22, CHR 0x22] else [c]) d)"

definition csv_field :: "bool \<Rightarrow> bytes \<Rightarrow> bytes" where
  "csv_field quote_empty field =
     (let d = csv_data field
      in if list_ex csv_special d \<or> (d = [] \<and> quote_empty)
         then [CHR 0x22] @ csv_double d @ [CHR 0x22]
         else d)"

definition writerow :: "bytes list \<Rightarrow> bytes" where
  "writerow row =
     join '','' (map (csv_field (length row = 1)) row) @ [CHR 0x0D, CHR 0x0A]"

text \<open>\<^verbatim>\<open>str(x)\<close> on a text: the ASCII codec.\<close>

definition str :: "unicode \<Rightarrow> error + bytes" where
  "str s = (if list_all (\<lambda>c. c < 0x80) s then Inr (map char_of s) else Inl UnicodeEncodeError)"

text \<open>Each of the next four functions gives the bytes that the method hands to its
  one call of \<^verbatim>\<open>write\<close> on the output (for CSV, through the writer).\<close>

definition PlainFormatter_format :: "unicode \<Rightarrow> unicode \<Rightarrow> unicode \<Rightarrow> bytes" where
  "PlainFormatter_format subject title creators =
     encode (subject @ u '': '' @ title @ u '', Creators: '' @ creators @ [0x0A])"

definition NONE :: unicode where
  "NONE = [0xAB] @ u ''NONE'' @ [0xBB]"

text \<open>\<^verbatim>\<open>pubMedID if pubMedID else NONE\<close>: \<^verbatim>\<open>None\<close> and the empty text are false.\<close>

definition PlainLookupFormatter_formatWithSuggestedPubMedID ::
  "unicode \<Rightarrow> unicode \<Rightarrow> unicode \<Rightarrow> unicode option \<Rightarrow> bytes" where
  "PlainLookupFormatter_formatWithSuggestedPubMedID subject title creators pubMedID =
     encode (subject @ u '': '' @ title @ u '', Creators: '' @ creators
       @ u '', Suggested PubMedID: ''
       @ (case pubMedID of None \<Rightarrow> NONE | Some i \<Rightarrow> if i \<noteq> [] then i else NONE)
       @ [0x0A])"

definition CSVFormatter_format :: "unicode \<Rightarrow> unicode \<Rightarrow> unicode \<Rightarrow> bytes" where
  "CSVFormatter_format subject title creators =
     writerow [encode subject, encode title, encode creators]"

definition CSVLookupFormatter_formatWithSuggestedPubMedID ::
  "unicode \<Rightarrow> unicode \<Rightarrow> unicode \<Rightarrow> unicode option \<Rightarrow> error + bytes" where
  "CSVLookupFormatter_formatWithSuggestedPubMedID subject title creators pubMedID =
     (case (case pubMedID of None \<Rightarrow> Inr [] | Some i \<Rightarrow> str i) of
        Inl e \<Rightarrow> Inl e
      | Inr i \<Rightarrow> Inr (writerow [encode subject, encode title, encode creators, i]))"

text \<open>
  The query \<^verbatim>\<open>xml.xpath(u'/eSearchResult/IdList/Id/text()')\<close>: the root element
  must be \<^verbatim>\<open>eSearchResult\<close>; the steps select its child elements \<^verbatim>\<open>IdList\<close>,
  their child elements \<^verbatim>\<open>Id\<close>, and the text nodes among the children of these, in
  document order. A text node is never empty.
\<close>

fun children_named :: "unicode \<Rightarrow> xml \<Rightarrow> xml list" where
  "children_named name (Element _ children) =
     filter (\<lambda>c. case c of Element n _ \<Rightarrow> n = name | Text _ \<Rightarrow> False) children"
| "children_named name (Text _) = []"

fun text_nodes :: "xml \<Rightarrow> unicode list" where
  "text_nodes (Element _ children) =
     concat (map (\<lambda>c. case c of Text t \<Rightarrow> (if t = [] then [] else [t]) | Element _ _ \<Rightarrow> [])
               children)"
| "text_nodes (Text _) = []"

definition xpath_Id_text :: "xml \<Rightarrow> unicode list" where
  "xpath_Id_text doc =
     (case doc of
        Element root _ \<Rightarrow>
          if root = u ''eSearchResult''
          then concat (map text_nodes
                 (concat (map (children_named (u ''Id'')) (children_named (u ''IdList'') doc))))
          else []
      | Text _ \<Rightarrow> [])"

text \<open>
  \<^verbatim>\<open>LookupFormatter.format\<close>, up to the bytes that the call of
  \<^verbatim>\<open>formatWithSuggestedPubMedID\<close> writes. The dictionary \<^verbatim>\<open>params\<close> is given to
  the search service; \<^verbatim>\<open>urllib.urlencode\<close> and the request are part of \<open>esearch\<close>.
\<close>

definition esearch_params :: "unicode \<Rightarrow> (bytes \<times> bytes) list" where
  "esearch_params title =
     [(''db'', ''pubmed''), (''field'', ''title''), (''term'', encode title)]"

definition LookupFormatter_format ::
  "world \<Rightarrow> formatter \<Rightarrow> unicode \<Rightarrow> unicode \<Rightarrow> unicode \<Rightarrow> error + bytes" where
  "LookupFormatter_format w formatter subject title creators =
     (case esearch w (esearch_params title) of
        Inl e \<Rightarrow> Inl e
      | Inr xml \<Rightarrow>
          let results = xpath_Id_text xml;
              suggestedID = (case results of [] \<Rightarrow> None | r # _ \<Rightarrow> Some r)
          in if formatter = CSVLookupFormatter
             then CSVLookupFormatter_formatWithSuggestedPubMedID subject title creators suggestedID
             else Inr (PlainLookupFormatter_formatWithSuggestedPubMedID
                          subject title creators suggestedID))"

text \<open>
  \<^verbatim>\<open>formatter.format(subject, title, creators)\<close>, by the class of the formatter:
  \<open>formatted\<close> is the bytes it hands to the output, or the exception raised before;
  \<open>format\<close> then writes them, which can raise too.
\<close>

definition formatted ::
  "world \<Rightarrow> formatter \<Rightarrow> unicode \<Rightarrow> unicode \<Rightarrow> unicode \<Rightarrow> error + bytes" where
  "formatted w formatter subject title creators =
     (case formatter of
        PlainFormatter \<Rightarrow> Inr (PlainFormatter_format subject title creators)
      | CSVFormatter \<Rightarrow> Inr (CSVFormatter_format subject title creators)
      | PlainLookupFormatter \<Rightarrow> LookupFormatter_format w formatter subject title creators
      | CSVLookupFormatter \<Rightarrow> LookupFormatter_format w formatter subject title creators)"

definition format ::
  "world \<Rightarrow> formatter \<Rightarrow> bytes list \<Rightarrow> unicode \<Rightarrow> unicode \<Rightarrow> unicode
     \<Rightarrow> error + bytes list" where
  "format w formatter out subject title creators =
     (case formatted w formatter subject title creators of
        Inl e \<Rightarrow> Inl e
      | Inr chunk \<Rightarrow> output_write w out chunk)"

subsection \<open>The reporter (\<^verbatim>\<open>outputBadPublications\<close>)\<close>

text \<open>The two fields computed in the loop body.\<close>

definition render_title :: "predicates \<Rightarrow> error + unicode" where
  "render_title preds =
     (if dict_contains preds titlePredURI
      then (case dict_get preds titlePredURI [] of
              [] \<Rightarrow> Inl IndexError
            | t # _ \<Rightarrow> Inr ([0x22] @ t @ [0x22]))
      else Inr NO_TITLE)"

definition render_creators :: "predicates \<Rightarrow> unicode" where
  "render_creators preds =
     (if dict_contains preds creatorPredURI
      then join (u ''; '') (dict_get preds creatorPredURI [])
      else NO_AUTHORS)"

text \<open>
  The loop over the gaps. \<open>out\<close> is the list of the writes made so far; an exception
  ends the loop and leaves what was written.
\<close>

fun outputBadPublications ::
  "world \<Rightarrow> formatter \<Rightarrow> (unicode \<times> predicates) list \<Rightarrow> bytes list
     \<Rightarrow> bytes list \<times> error option" where
  "outputBadPublications w formatter [] out = (out, None)"
| "outputBadPublications w formatter ((subject, preds) # missing) out =
     (case render_title preds of
        Inl e \<Rightarrow> (out, Some e)
      | Inr title \<Rightarrow>
          (case format w formatter out subject title (render_creators preds) of
             Inl e \<Rightarrow> (out, Some e)
           | Inr out' \<Rightarrow> outputBadPublications w formatter missing out'))"

subsection \<open>The run (\<^verbatim>\<open>checkPublications\<close>, \<^verbatim>\<open>main\<close>)\<close>

definition parsePubs :: "world \<Rightarrow> bytes \<Rightarrow> error + statements" where
  "parsePubs w url =
     (case feed w url of Inl e \<Rightarrow> Inl e | Inr g \<Rightarrow> Inr (index_triples g))"

text \<open>\<^verbatim>\<open>missing.sort(lambda a, b: cmp(a[0], b[0]))\<close> is a stable sort on the subject.\<close>

definition checkPublications ::
  "world \<Rightarrow> bytes \<Rightarrow> formatter \<Rightarrow> bytes list \<times> error option" where
  "checkPublications w url formatter =
     (case parsePubs w url of
        Inl e \<Rightarrow> ([], Some e)
      | Inr statements \<Rightarrow>
          let missing = findMissingPubMedIDs statements;
              missing = sort_key fst missing
          in outputBadPublications w formatter missing [])"

text \<open>
  The options and positional arguments as \<^verbatim>\<open>parse_args(argv)\<close> returns them; the
  first positional argument is the name of the program.
\<close>

record options =
  csv :: bool
  output_file :: "bytes option"
  suggest :: bool

definition defaultURL :: bytes where
  "defaultURL = ''http://ginger.fhcrc.org/dmcc/rdf-data/publications/rdf''"

text \<open>
  How a call of \<open>main\<close> ends: it returns a truth value, or \<^verbatim>\<open>_optParser.error\<close>
  exits with status 2, or an exception raised outside the \<^verbatim>\<open>try\<close> block escapes.
\<close>

datatype ending = Returned bool | SystemExit int | Uncaught error

record run =
  written :: "bytes list"
  closed :: bool
  logged :: "bytes list"
  ending :: ending

text \<open>
  The message of \<^verbatim>\<open>logging.exception\<close> in the handler. The calls of
  \<^verbatim>\<open>logging.info\<close> only add lines to the log and are left out.
\<close>

definition failure_message :: "bytes \<Rightarrow> bytes" where
  "failure_message url = ''Failure while checking URL '' @ [CHR 0x22] @ url @ [CHR 0x22]"

definition main :: "world \<Rightarrow> options \<Rightarrow> bytes list \<Rightarrow> run" where
  "main w opts args =
     (if length args > 2
      then \<lparr>written = [], closed = False, logged = [], ending = SystemExit 2\<rparr>
      else
        let url = (if length args = 2 then args ! 1 else defaultURL) in
        if (case output_file opts of None \<Rightarrow> False | Some path \<Rightarrow> path \<noteq> [] \<and> \<not> writable w path)
        then \<lparr>written = [], closed = False, logged = [], ending = Uncaught IOError\<rparr>
        else
          let formatter =
                (if suggest opts
                 then (if csv opts then CSVLookupFormatter else PlainLookupFormatter)
                 else (if csv opts then CSVFormatter else PlainFormatter))
          in case checkPublications w url formatter of
               (out, None) \<Rightarrow>
                 if closes w out
                 then \<lparr>written = out, closed = True, logged = [], ending = Returned True\<rparr>
                 else \<lparr>written = out, closed = False, logged = [failure_message url],
                       ending = Returned False\<rparr>
             | (out, Some e) \<Rightarrow>
                 \<lparr>written = out, closed = False, logged = [failure_message url],
                  ending = Returned False\<rparr>)"

text \<open>
  The exit status of the process. \<^verbatim>\<open>sys.exit(n)\<close> ends the process with status
  \<open>n mod 256\<close>; an exception that escapes gives status 1. The module run as a script
  ends with \<^verbatim>\<open>sys.exit(0 if main(sys.argv) else -1)\<close>. The command \<^verbatim>\<open>badpubs\<close>
  that \<^verbatim>\<open>setup.py\<close> declares (\<^verbatim>\<open>console_scripts: badpubs=badpubs:main\<close>) ends
  with \<^verbatim>\<open>sys.exit(main())\<close>, where \<^verbatim>\<open>True\<close> is the integer 1 and \<^verbatim>\<open>False\<close> is 0.
\<close>

definition sys_exit :: "int \<Rightarrow> nat" where
  "sys_exit n = nat (n mod 256)"

definition script_status :: "run \<Rightarrow> nat" where
  "script_status r =
     (case ending r of
        Returned ok \<Rightarrow> sys_exit (if ok then 0 else - 1)
      | SystemExit n \<Rightarrow> sys_exit n
      | Uncaught e \<Rightarrow> 1)"

definition console_script_status :: "run \<Rightarrow> nat" where
  "console_script_status r =
     (case ending r of
        Returned ok \<Rightarrow> sys_exit (if ok then 1 else 0)
      | SystemExit n \<Rightarrow> sys_exit n
      | Uncaught e \<Rightarrow> 1)"

subsection \<open>Reading CSV back\<close>

text \<open>
  The repository writes CSV and never reads it. To state the round trip, the
  reader is \<^verbatim>\<open>csv.reader\<close> of the same Python library with the same dialect, given
  the lines of the output: a state machine over the characters of a line, which sees
  an end-of-line mark after each line. A field is collected in \<open>fld\<close>, the fields of
  the current row in \<open>flds\<close>, the finished rows in \<open>rws\<close>. A NUL byte in the input,
  a character other than CR or LF after the end of a row, and a field that grows
  beyond the field size limit of the library (131072) are errors.
\<close>

datatype reader_state =
  START_RECORD | START_FIELD | IN_FIELD | IN_QUOTED_FIELD | QUOTE_IN_QUOTED_FIELD | EAT_CRNL

type_synonym reader = "reader_state \<times> bytes \<times> bytes list \<times> bytes list list"

definition field_limit :: nat where
  "field_limit = 131072"

definition add_char ::
  "reader_state \<Rightarrow> char \<Rightarrow> bytes \<Rightarrow> bytes list \<Rightarrow> bytes list list \<Rightarrow> reader option" where
  "add_char st c fld flds rws =
     (if length fld \<ge> field_limit then None else Some (st, fld @ [c], flds, rws))"

definition start_field :: "char \<Rightarrow> bytes \<Rightarrow> bytes list \<Rightarrow> bytes list list \<Rightarrow> reader option" where
  "start_field c fld flds rws =
     (if c = CHR 0x0A \<or> c = CHR 0x0D then Some (EAT_CRNL, [], flds @ [fld], rws)
      else if c = CHR 0x22 then Some (IN_QUOTED_FIELD, fld, flds, rws)
      else if c = CHR '','' then Some (START_FIELD, [], flds @ [fld], rws)
      else add_char IN_FIELD c fld flds rws)"

fun process_char :: "char \<Rightarrow> reader \<Rightarrow> reader option" where
  "process_char c (START_RECORD, fld, flds, rws) =
     (if c = CHR 0x0A \<or> c = CHR 0x0D then Some (EAT_CRNL, fld, flds, rws)
      else start_field c fld flds rws)"
| "process_char c (START_FIELD, fld, flds, rws) = start_field c fld flds rws"
| "process_char c (IN_FIELD, fld, flds, rws) =
     (if c = CHR 0x0A \<or> c = CHR 0x0D then Some (EAT_CRNL, [], flds @ [fld], rws)
      else if c = CHR '','' then Some (START_FIELD, [], flds @ [fld], rws)
      else add_char IN_FIELD c fld flds rws)"
| "process_char c (IN_QUOTED_FIELD, fld, flds, rws) =
     (if c = CHR 0x22 then Some (QUOTE_IN_QUOTED_FIELD, fld, flds, rws)
      else add_char IN_QUOTED_FIELD c fld flds rws)"
| "process_char c (QUOTE_IN_QUOTED_FIELD, fld, flds, rws) =
     (if c = CHR 0x22 then add_char IN_QUOTED_FIELD c fld flds rws
      else if c = CHR '','' then Some (START_FIELD, [], flds @ [fld], rws)
      else if c = CHR 0x0A \<or> c = CHR 0x0D then Some (EAT_CRNL, [], flds @ [fld], rws)
      else add_char IN_FIELD c fld flds rws)"
| "process_char c (EAT_CRNL, fld, flds, rws) =
     (if c = CHR 0x0A \<or> c = CHR 0x0D then Some (EAT_CRNL, fld, flds, rws) else None)"

fun end_of_line :: "reader \<Rightarrow> reader" where
  "end_of_line (START_RECORD, fld, flds, rws) = (START_RECORD, fld, flds, rws)"
| "end_of_line (IN_QUOTED_FIELD, fld, flds, rws) = (IN_QUOTED_FIELD, fld, flds, rws)"
| "end_of_line (EAT_CRNL, fld, flds, rws) = (START_RECORD, [], [], rws @ [flds])"
| "end_of_line (st, fld, flds, rws) = (START_RECORD, [], [], rws @ [flds @ [fld]])"

fun reader_feed :: "reader \<Rightarrow> bytes \<Rightarrow> reader option" where
  "reader_feed r [] = Some r"
| "reader_feed r (c # cs) =
     (if c = CHR 0x00 then None
      else case process_char c r of
             None \<Rightarrow> None
           | Some r' \<Rightarrow> reader_feed (if c = CHR 0x0A then end_of_line r' else r') cs)"

fun end_of_input :: "reader \<Rightarrow> bytes list list" where
  "end_of_input r =
     (case end_of_line r of
        (IN_QUOTED_FIELD, fld, flds, rws) \<Rightarrow> rws @ [flds @ [fld]]
      | (st, fld, flds, rws) \<Rightarrow> rws)"

definition csv_read :: "bytes \<Rightarrow> bytes list list option" where
  "csv_read input = map_option end_of_input (reader_feed (START_RECORD, [], [], []) input)"





subsection \<open>Notions used to state the properties\<close>

text \<open>The objects of the triples of \<open>g\<close> with subject \<open>s\<close> and predicate \<open>p\<close>, in the
  order of \<open>g\<close>; the values an index holds for \<open>s\<close> and \<open>p\<close>; the two invariants of
  an index.\<close>

definition objects_of :: "triple list \<Rightarrow> unicode \<Rightarrow> unicode \<Rightarrow> unicode list" where
  "objects_of g s p = map (\<lambda>(s', p', o'). o') (filter (\<lambda>(s', p', o'). s' = s \<and> p' = p) g)"

definition values_at :: "statements \<Rightarrow> unicode \<Rightarrow> unicode \<Rightarrow> unicode list" where
  "values_at stmts s p = dict_get (dict_get stmts s []) p []"

definition nonempty_values :: "statements \<Rightarrow> bool" where
  "nonempty_values stmts = (\<forall>(s, preds) \<in> set stmts. \<forall>(p, objs) \<in> set preds. objs \<noteq> [])"

definition distinct_keys :: "statements \<Rightarrow> bool" where
  "distinct_keys stmts =
     (distinct (map fst stmts) \<and> (\<forall>(s, preds) \<in> set stmts. distinct (map fst preds)))"





text \<open>
  The line of the plain format with lookup as the specification words it:
  \<^verbatim>\<open><subject>: <title>, Creators: <creators>, Suggested ID: <id-or-none-sentinel>\n\<close>.
\<close>

definition spec_plain_lookup_line ::
  "unicode \<Rightarrow> unicode \<Rightarrow> unicode \<Rightarrow> unicode option \<Rightarrow> bytes" where
  "spec_plain_lookup_line subject title creators pubMedID =
     encode subject @ '': '' @ encode title @ '', Creators: '' @ encode creators
       @ '', Suggested ID: ''
       @ encode (case pubMedID of None \<Rightarrow> NONE | Some i \<Rightarrow> i) @ [CHR 0x0A]"

subsection \<open>A small feed\<close>

text \<open>
  Subject \<open>[65]\<close> has an identifier; \<open>[66]\<close> has none, and has a title and two
  creators; \<open>[67]\<close> has none of the three predicates.
\<close>

definition example_feed :: "triple list" where
  "example_feed =
     [([66], titlePredURI, [70, 111, 111]),
      ([65], pubMedIDPredURI, [49]),
      ([66], creatorPredURI, [88]),
      ([67], [9], [2]),
      ([66], creatorPredURI, [89])]"

text \<open>
  Answers of the search service: one with the identifier \<^verbatim>\<open>1\<close>, one with no
  identifier, and one whose first identifier element is empty and whose second
  holds \<^verbatim>\<open>5\<close>.
\<close>

definition answer :: "xml list \<Rightarrow> xml" where
  "answer ids = Element (u ''eSearchResult'') [Element (u ''IdList'') ids]"

definition answer_1 :: xml where
  "answer_1 = answer [Element (u ''Id'') [Text [49]]]"

definition answer_none :: xml where
  "answer_none = answer []"



definition probe_world :: world where
  "probe_world =
     \<lparr>feed = (\<lambda>url. Inr example_feed),
      esearch = (\<lambda>params. if map_of params ''term'' = Some ''Foo''
                          then Inr answer_1 else Inr answer_none),
      writable = (\<lambda>path. True), accepts = (\<lambda>out chunk. True), closes = (\<lambda>out. True)\<rparr>"

definition feed_down_world :: world where
  "feed_down_world =
     \<lparr>feed = (\<lambda>url. Inl FetchError), esearch = (\<lambda>params. Inr answer_none),
      writable = (\<lambda>path. True), accepts = (\<lambda>out chunk. True), closes = (\<lambda>out. True)\<rparr>"


text \<open>The options of a run with no flag.\<close>

definition plain_options :: options where
  "plain_options = \<lparr>csv = False, output_file = None, suggest = False\<rparr>"

subsection \<open>Facts about dictionaries\<close>

lemma map_of_dict_set: "map_of (dict_set d k v) = (map_of d)(k \<mapsto> v)"
  by (induction d) (auto simp: fun_eq_iff)

lemma keys_dict_set: "fst ` set (dict_set d k v) = insert k (fst ` set d)"
  by (simp add: dom_map_of_conv_image_fst [symmetric] map_of_dict_set)

lemma distinct_dict_set:
  "distinct (map fst d) \<Longrightarrow> distinct (map fst (dict_set d k v))"
  by (induction d) (auto simp: keys_dict_set)

lemma set_dict_set:
  "set (dict_set d k v) \<subseteq> insert (k, v) (set d)"
  by (induction d) (auto split: if_splits)

subsection \<open>The index\<close>

lemma values_at_add:
  "values_at (add_statement stmts (s, p, o')) s' p' =
     values_at stmts s' p' @ (if s' = s \<and> p' = p then [o'] else [])"
  by (simp add: values_at_def add_statement_def dict_get_def map_of_dict_set Let_def)

lemma values_at_foldl:
  "values_at (foldl add_statement stmts g) s p = values_at stmts s p @ objects_of g s p"
proof (induction g arbitrary: stmts)
  case Nil
  show ?case by (simp add: objects_of_def)
next
  case (Cons t g)
  obtain s' p' o' where t: "t = (s', p', o')" by (cases t)
  show ?case
    by (simp add: Cons.IH t values_at_add) (simp add: objects_of_def)
qed

lemma keys_add: "fst ` set (add_statement stmts (s, p, o')) = insert s (fst ` set stmts)"
  by (simp add: add_statement_def Let_def keys_dict_set)

lemma keys_foldl:
  "fst ` set (foldl add_statement stmts g) = fst ` set stmts \<union> (\<lambda>(s, p, o'). s) ` set g"
proof (induction g arbitrary: stmts)
  case Nil
  show ?case by simp
next
  case (Cons t g)
  obtain s' p' o' where t: "t = (s', p', o')" by (cases t)
  show ?case by (simp add: Cons.IH t keys_add)
qed

lemma dict_get_cases:
  "dict_get d k dflt = dflt \<and> map_of d k = None \<or> (k, dict_get d k dflt) \<in> set d"
  by (auto simp: dict_get_def split: option.splits dest: map_of_SomeD)

lemma nonempty_valuesD:
  "nonempty_values stmts \<Longrightarrow> (s, preds) \<in> set stmts \<Longrightarrow> (p, objs) \<in> set preds
     \<Longrightarrow> objs \<noteq> []"
  by (auto simp: nonempty_values_def)

lemma nonempty_add:
  assumes "nonempty_values stmts"
  shows "nonempty_values (add_statement stmts (s, p, o'))"
proof -
  let ?preds = "dict_get stmts s []"
  let ?objs = "dict_get ?preds p [] @ [o']"
  have old: "objs \<noteq> []" if "(q, objs) \<in> set ?preds" for q objs
    using that assms dict_get_cases [of stmts s "[]"] by (auto dest: nonempty_valuesD)
  have new: "objs \<noteq> []" if "(q, objs) \<in> set (dict_set ?preds p ?objs)" for q objs
    using that old set_dict_set [of ?preds p ?objs] by auto
  have "objs \<noteq> []"
    if a: "(s', preds) \<in> set (dict_set stmts s (dict_set ?preds p ?objs))"
      and b: "(q, objs) \<in> set preds" for s' preds q objs
  proof -
    from a set_dict_set [of stmts s "dict_set ?preds p ?objs"]
    have "preds = dict_set ?preds p ?objs \<or> (s', preds) \<in> set stmts" by auto
    then show ?thesis
      using new b assms by (auto dest: nonempty_valuesD)
  qed
  then show ?thesis
    by (auto simp: add_statement_def Let_def nonempty_values_def)
qed

lemma distinct_add:
  assumes "distinct_keys stmts"
  shows "distinct_keys (add_statement stmts (s, p, o'))"
proof -
  let ?preds = "dict_get stmts s []"
  let ?objs = "dict_get ?preds p [] @ [o']"
  have old: "distinct (map fst ?preds)"
    using assms dict_get_cases [of stmts s "[]"] by (auto simp: distinct_keys_def)
  have new: "distinct (map fst (dict_set ?preds p ?objs))"
    using old by (rule distinct_dict_set)
  have "\<forall>(s', preds) \<in> set (dict_set stmts s (dict_set ?preds p ?objs)).
          distinct (map fst preds)"
  proof (clarify)
    fix s' preds
    assume a: "(s', preds) \<in> set (dict_set stmts s (dict_set ?preds p ?objs))"
    from a set_dict_set [of stmts s "dict_set ?preds p ?objs"]
    have "preds = dict_set ?preds p ?objs \<or> (s', preds) \<in> set stmts" by auto
    then show "distinct (map fst preds)"
      using new assms by (auto simp: distinct_keys_def)
  qed
  moreover have "distinct (map fst (dict_set stmts s (dict_set ?preds p ?objs)))"
    using assms by (simp add: distinct_keys_def distinct_dict_set)
  ultimately show ?thesis
    by (simp add: add_statement_def Let_def distinct_keys_def)
qed

lemma invariants_foldl:
  "nonempty_values stmts \<Longrightarrow> distinct_keys stmts \<Longrightarrow>
   nonempty_values (foldl add_statement stmts g) \<and> distinct_keys (foldl add_statement stmts g)"
proof (induction g arbitrary: stmts)
  case Nil
  then show ?case by simp
next
  case (Cons t g)
  obtain s' p' o' where t: "t = (s', p', o')" by (cases t)
  show ?case using Cons.prems by (simp add: t Cons.IH nonempty_add distinct_add)
qed

lemma invariants_index: "nonempty_values (index_triples g) \<and> distinct_keys (index_triples g)"
  unfolding index_triples_def
  by (rule invariants_foldl) (simp_all add: nonempty_values_def distinct_keys_def)

text \<open>
  C1. The index has one record for each subject that occurs in a triple and no
  other, and the record of a subject maps a predicate to the objects of the triples
  with this subject and predicate, in the order of arrival; a predicate with no such
  triple has no entry.
\<close>

theorem index_triples_correct:
  "distinct (map fst (index_triples g)) \<and>
   fst ` set (index_triples g) = (\<lambda>(s, p, o'). s) ` set g \<and>
   (\<forall>(s, preds) \<in> set (index_triples g).
      distinct (map fst preds) \<and>
      (\<forall>p. map_of preds p =
         (if objects_of g s p = [] then None else Some (objects_of g s p))))"
proof (intro conjI)
  have inv: "nonempty_values (index_triples g)" "distinct_keys (index_triples g)"
    using invariants_index by simp_all
  show "distinct (map fst (index_triples g))"
    using inv(2) by (simp add: distinct_keys_def)
  show "fst ` set (index_triples g) = (\<lambda>(s, p, o'). s) ` set g"
    by (simp add: index_triples_def keys_foldl)
  show "\<forall>(s, preds) \<in> set (index_triples g).
      distinct (map fst preds) \<and>
      (\<forall>p. map_of preds p =
         (if objects_of g s p = [] then None else Some (objects_of g s p)))"
  proof (clarify, intro conjI allI)
    fix s preds
    assume mem: "(s, preds) \<in> set (index_triples g)"
    show "distinct (map fst preds)"
      using inv(2) mem by (auto simp: distinct_keys_def)
    fix p
    have at: "map_of (index_triples g) s = Some preds"
      using inv(2) mem by (simp add: distinct_keys_def)
    have vals: "values_at (index_triples g) s p = objects_of g s p"
      by (simp add: index_triples_def values_at_foldl) (simp add: values_at_def dict_get_def)
    show "map_of preds p =
         (if objects_of g s p = [] then None else Some (objects_of g s p))"
    proof (cases "map_of preds p")
      case None
      then show ?thesis using vals at by (simp add: values_at_def dict_get_def)
    next
      case (Some objs)
      then have "(p, objs) \<in> set preds" by (rule map_of_SomeD)
      then have "objs \<noteq> []"
        using inv(1) mem by (rule nonempty_valuesD [rotated 2])
      then show ?thesis using vals at Some by (simp add: values_at_def dict_get_def)
    qed
  qed
qed

theorem index_triples_correct_witness:
  "([1], [([7], [[10], [30]])]) \<in> set (index_triples [([1], [7], [10]), ([2], [7], [20]), ([1], [7], [30])])
   \<and> map_of [([7::nat], [[10], [30::nat]])] [7::nat]
       = Some (objects_of [([1], [7], [10]), ([2], [7], [20]), ([1], [7], [30])] [1] [7])"
proof -
  let ?g = "[([1], [7], [10]), ([2], [7], [20]), ([1], [7], [30])] :: triple list"
  have mem: "([1], [([7], [[10], [30]])]) \<in> set (index_triples ?g)"
    by (simp add: index_triples_def add_statement_def dict_get_def)
  have ob: "objects_of ?g [1] [7] \<noteq> []"
    by (simp add: objects_of_def)
  note all = conjunct2 [OF conjunct2 [OF index_triples_correct [of ?g]]]
  from bspec [OF all mem]
  have "\<forall>p. map_of [([7::nat], [[10], [30::nat]])] p =
          (if objects_of ?g [1] p = [] then None else Some (objects_of ?g [1] p))"
    by simp
  then have "map_of [([7::nat], [[10], [30::nat]])] [7] =
          (if objects_of ?g [1] [7] = [] then None else Some (objects_of ?g [1] [7]))"
    by (rule spec)
  with ob mem show ?thesis by simp
qed


subsection \<open>The example feed, evaluated\<close>

lemma preds_distinct:

  "titlePredURI \<noteq> creatorPredURI" "titlePredURI \<noteq> pubMedIDPredURI"
  "creatorPredURI \<noteq> pubMedIDPredURI" "titlePredURI \<noteq> [9]" "creatorPredURI \<noteq> [9]"
  "pubMedIDPredURI \<noteq> [9]"
  by (simp_all add: titlePredURI_def creatorPredURI_def pubMedIDPredURI_def u_def)

lemma example_index:
  "index_triples example_feed =
     [([66], [(titlePredURI, [[70, 111, 111]]), (creatorPredURI, [[88], [89]])]),
      ([65], [(pubMedIDPredURI, [[49]])]),
      ([67], [([9], [[2]])])]"
  by (simp add: example_feed_def index_triples_def add_statement_def dict_get_def preds_distinct preds_distinct [THEN not_sym])

lemma example_missing:
  "findMissingPubMedIDs (index_triples example_feed) =
     [([66], [(titlePredURI, [[70, 111, 111]]), (creatorPredURI, [[88], [89]])]),
      ([67], [([9], [[2]])])]"
  by (simp add: example_index findMissingPubMedIDs_def dict_contains_def preds_distinct preds_distinct [THEN not_sym])

subsection \<open>The gaps\<close>

lemma findMissing_loop_filter:
  "findMissing_loop missing stmts =
     missing @ filter (\<lambda>(s, preds). \<not> dict_contains preds pubMedIDPredURI) stmts"
  by (induction missing stmts rule: findMissing_loop.induct) auto

lemma dict_contains_keys: "dict_contains d k \<longleftrightarrow> k \<in> fst ` set d"
  by (simp add: dict_contains_def map_of_eq_None_iff)

text \<open>
  C2. The gap detector returns a pair of the index exactly when its record has no
  entry for the identifier predicate; what else the record has or lacks plays no
  role.
\<close>

theorem findMissingPubMedIDs_iff:
  "(s, r) \<in> set (findMissingPubMedIDs stmts) \<longleftrightarrow>
     (s, r) \<in> set stmts \<and> pubMedIDPredURI \<notin> fst ` set r"
  by (auto simp: findMissingPubMedIDs_def findMissing_loop_filter dict_contains_keys)

lemma findMissing_subset: "set (findMissingPubMedIDs stmts) \<subseteq> set stmts"
  by (auto simp: findMissingPubMedIDs_def findMissing_loop_filter)

subsection \<open>Values are never empty\<close>

lemma dict_get_present:
  "dict_contains d k \<Longrightarrow> (k, dict_get d k dflt) \<in> set d"
  by (auto simp: dict_contains_def dict_get_def dest: map_of_SomeD)

lemma render_title_ok:
  assumes "\<forall>(p, objs) \<in> set preds. objs \<noteq> []"
  shows "\<exists>t. render_title preds = Inr t"
proof (cases "dict_contains preds titlePredURI")
  case True
  then have "(titlePredURI, dict_get preds titlePredURI []) \<in> set preds"
    by (rule dict_get_present)
  with assms have "dict_get preds titlePredURI [] \<noteq> []" by auto
  then show ?thesis using True by (simp add: render_title_def split: list.splits)
next
  case False
  then show ?thesis by (simp add: render_title_def)
qed

lemma index_record_values:
  "(s, preds) \<in> set (index_triples g) \<Longrightarrow> \<forall>(p, objs) \<in> set preds. objs \<noteq> []"
  using invariants_index [of g] by (auto dest: nonempty_valuesD)

lemma index_record_title:
  "(s, preds) \<in> set (index_triples g) \<Longrightarrow> \<exists>t. render_title preds = Inr t"
  by (rule render_title_ok) (rule index_record_values)

text \<open>
  C10. In an index built by the indexer every value list is non-empty, so the first
  title value of a record with a title exists (\<open>render_title\<close> does not raise), and a
  creator entry holds at least one value.
\<close>

theorem index_values_nonempty:
  assumes "(s, preds) \<in> set (index_triples g)"
  shows "(\<forall>(p, objs) \<in> set preds. objs \<noteq> []) \<and>
         (\<exists>t. render_title preds = Inr t) \<and>
         (dict_contains preds creatorPredURI \<longrightarrow> dict_get preds creatorPredURI [] \<noteq> [])"
proof -
  note ne = index_record_values [OF assms]
  have "dict_get preds creatorPredURI [] \<noteq> []" if "dict_contains preds creatorPredURI"
    using dict_get_present [OF that, of "[]"] ne by auto
  with ne render_title_ok [OF ne] show ?thesis by blast
qed


theorem index_values_nonempty_witness:
  "([1], [(titlePredURI, [[65]])]) \<in> set (index_triples [([1], titlePredURI, [65])]) \<and>
   (\<exists>t. render_title [(titlePredURI, [[65]])] = Inr t)"
proof -
  have mem: "([1], [(titlePredURI, [[65]])]) \<in> set (index_triples [([1], titlePredURI, [65])])"
    by (simp add: index_triples_def add_statement_def dict_get_def)
  from index_values_nonempty [OF mem] mem show ?thesis by blast
qed

subsection \<open>The rendered fields\<close>

text \<open>
  C4. For a gap of an index built by the indexer: the title field is the sentinel
  \<open>NO_TITLE\<close> when the record has no title entry, and otherwise the first title
  value (there is one) between quotation marks; the creators field is the sentinel
  \<open>NO_AUTHORS\<close> when the record has no creator entry, and otherwise all creator
  values joined with \<^verbatim>\<open>; \<close>.
\<close>

theorem render_gap_fields:
  assumes "(s, preds) \<in> set (findMissingPubMedIDs (index_triples g))"
  shows "render_title preds =
           Inr (case map_of preds titlePredURI of
                  None \<Rightarrow> NO_TITLE
                | Some vs \<Rightarrow> [0x22] @ hd vs @ [0x22]) \<and>
         (\<forall>vs. map_of preds titlePredURI = Some vs \<longrightarrow> vs \<noteq> []) \<and>
         render_creators preds =
           (case map_of preds creatorPredURI of
              None \<Rightarrow> NO_AUTHORS
            | Some vs \<Rightarrow> join (u ''; '') vs)"
proof -
  have mem: "(s, preds) \<in> set (index_triples g)"
    using assms findMissing_subset by blast
  have ne: "vs \<noteq> []" if "map_of preds k = Some vs" for k vs
    using invariants_index [of g] mem map_of_SomeD [OF that] by (auto dest: nonempty_valuesD)
  have title: "render_title preds =
           Inr (case map_of preds titlePredURI of
                  None \<Rightarrow> NO_TITLE
                | Some vs \<Rightarrow> [0x22] @ hd vs @ [0x22])"
  proof (cases "map_of preds titlePredURI")
    case None
    then show ?thesis by (simp add: render_title_def dict_contains_def)
  next
    case (Some vs)
    with ne have "vs \<noteq> []" by blast
    then obtain t ts where "vs = t # ts" by (cases vs) auto
    with Some show ?thesis by (simp add: render_title_def dict_contains_def dict_get_def)
  qed
  have creators: "render_creators preds =
           (case map_of preds creatorPredURI of
              None \<Rightarrow> NO_AUTHORS
            | Some vs \<Rightarrow> join (u ''; '') vs)"
    by (simp add: render_creators_def dict_contains_def dict_get_def split: option.splits)
  from title creators ne show ?thesis by blast
qed

theorem render_gap_fields_witness:
  "([66], [(titlePredURI, [[70, 111, 111]]), (creatorPredURI, [[88], [89]])])
     \<in> set (findMissingPubMedIDs (index_triples example_feed)) \<and>
   render_title [(titlePredURI, [[70, 111, 111]]), (creatorPredURI, [[88], [89]])]
     = Inr [0x22, 70, 111, 111, 0x22] \<and>
   render_creators [(titlePredURI, [[70, 111, 111]]), (creatorPredURI, [[88], [89]])]
     = [88, 59, 32, 89]"
proof -
  let ?preds = "[(titlePredURI, [[70, 111, 111]]), (creatorPredURI, [[88], [89]])]"
  have mem: "([66], ?preds) \<in> set (findMissingPubMedIDs (index_triples example_feed))"
    by (simp add: example_missing)
  have t: "map_of ?preds titlePredURI = Some [[70, 111, 111]]" by simp
  have c: "map_of ?preds creatorPredURI = Some [[88], [89]]"
    by (simp add: preds_distinct [THEN not_sym])
  from render_gap_fields [OF mem] show ?thesis
    unfolding t c using mem by (simp add: u_def)
qed

subsection \<open>The records of a run\<close>










subsection \<open>The plain line with a suggested identifier\<close>

lemma encode_append: "encode (a @ b) = encode a @ encode b"
  by (simp add: encode_def)

lemma encode_Cons: "encode (c # s) = utf8 c @ encode s"
  by (simp add: encode_def)

lemma encode_Nil: "encode [] = []"
  by (simp add: encode_def)

lemma utf8_ascii: "of_char c < (0x80::nat) \<Longrightarrow> utf8 (of_char c) = [c]"
  by (simp add: utf8_def)

lemma encode_u: "list_all (\<lambda>c. of_char c < (0x80::nat)) s \<Longrightarrow> encode (u s) = s"
  by (induction s) (simp_all add: u_def encode_Nil encode_Cons utf8_ascii)

lemma encode_NONE: "encode NONE = [CHR 0xC2, CHR 0xAB] @ ''NONE'' @ [CHR 0xC2, CHR 0xBB]"
  by code_simp

lemma encode_LF: "encode [0x0A] = [CHR 0x0A]"
  by code_simp

lemma plain_line:
  "PlainLookupFormatter_formatWithSuggestedPubMedID subject title creators pubMedID =
     encode subject @ '': '' @ encode title @ '', Creators: '' @ encode creators
       @ '', Suggested PubMedID: ''
       @ (case pubMedID of
            None \<Rightarrow> [CHR 0xC2, CHR 0xAB] @ ''NONE'' @ [CHR 0xC2, CHR 0xBB]
          | Some i \<Rightarrow>
              if i = [] then [CHR 0xC2, CHR 0xAB] @ ''NONE'' @ [CHR 0xC2, CHR 0xBB]
              else encode i)
       @ [CHR 0x0A]"
proof -
  have lits: "encode (u '': '') = '': ''" "encode (u '', Creators: '') = '', Creators: ''"
    "encode (u '', Suggested PubMedID: '') = '', Suggested PubMedID: ''"
    by (simp_all add: encode_u)
  show ?thesis
    unfolding PlainLookupFormatter_formatWithSuggestedPubMedID_def encode_append lits encode_LF
    by (simp add: encode_NONE split: option.splits)
qed



text \<open>
  C5, as stated, fails: the label the code writes before the suggested identifier
  is \<^verbatim>\<open>Suggested PubMedID\<close>, not \<^verbatim>\<open>Suggested ID\<close>.
\<close>

theorem plain_lookup_line_counterexample:
  "PlainLookupFormatter_formatWithSuggestedPubMedID [66] [84] [88] (Some [49])
     \<noteq> spec_plain_lookup_line [66] [84] [88] (Some [49])"
  by code_simp

text \<open>
  C5, amended. The bytes written for a gap in plain format with lookup are the
  UTF-8 encodings of subject, title and creators with the separators \<^verbatim>\<open>: \<close> and
  \<^verbatim>\<open>, Creators: \<close>, then \<^verbatim>\<open>, Suggested PubMedID: \<close>, then the identifier, or the
  sentinel when there is none (or it is the empty text), then a line feed.
\<close>

theorem plain_lookup_line:
  "PlainLookupFormatter_formatWithSuggestedPubMedID subject title creators pubMedID =
     encode subject @ '': '' @ encode title @ '', Creators: '' @ encode creators
       @ '', Suggested PubMedID: ''
       @ (case pubMedID of
            None \<Rightarrow> [CHR 0xC2, CHR 0xAB] @ ''NONE'' @ [CHR 0xC2, CHR 0xBB]
          | Some i \<Rightarrow>
              if i = [] then [CHR 0xC2, CHR 0xAB] @ ''NONE'' @ [CHR 0xC2, CHR 0xBB]
              else encode i)
       @ [CHR 0x0A]"
  by (rule plain_line)

subsection \<open>The lookup\<close>









text \<open>
  C6. The search term is not the title value of the record: \<open>outputBadPublications\<close>
  hands the rendered title field to the formatter, so the term is the title between
  quotation marks, or the sentinel \<open>NO_TITLE\<close> for a record without title. In the
  world where the service knows the title \<^verbatim>\<open>Foo\<close>, a direct request with the
  title value finds the identifier, and the run does not.
\<close>

theorem search_term_evaluated:
  "render_title [(titlePredURI, [[70, 111, 111]]), (creatorPredURI, [[88], [89]])]
     = Inr [0x22, 70, 111, 111, 0x22] \<and>
   esearch_params [0x22, 70, 111, 111, 0x22] =
     [(''db'', ''pubmed''), (''field'', ''title''), (''term'', [CHR 0x22] @ ''Foo'' @ [CHR 0x22])] \<and>
   esearch_params NO_TITLE =
     [(''db'', ''pubmed''), (''field'', ''title''),
      (''term'', [CHR 0xC2, CHR 0xAB] @ ''NO TITLE'' @ [CHR 0xC2, CHR 0xBB])] \<and>
   format probe_world PlainLookupFormatter [] [66] [70, 111, 111] [88, 59, 32, 89] =
     Inr [[CHR 0x42] @ '': Foo, Creators: X; Y, Suggested PubMedID: 1'' @ [CHR 0x0A]] \<and>
   checkPublications probe_world defaultURL PlainLookupFormatter =
     ([[CHR 0x42] @ '': '' @ [CHR 0x22] @ ''Foo'' @ [CHR 0x22]
         @ '', Creators: X; Y, Suggested PubMedID: ''
         @ [CHR 0xC2, CHR 0xAB] @ ''NONE'' @ [CHR 0xC2, CHR 0xBB] @ [CHR 0x0A],
       [CHR 0x43] @ '': '' @ [CHR 0xC2, CHR 0xAB] @ ''NO TITLE'' @ [CHR 0xC2, CHR 0xBB]
         @ '', Creators: '' @ [CHR 0xC2, CHR 0xAB] @ ''NO AUTHORS'' @ [CHR 0xC2, CHR 0xBB]
         @ '', Suggested PubMedID: ''
         @ [CHR 0xC2, CHR 0xAB] @ ''NONE'' @ [CHR 0xC2, CHR 0xBB] @ [CHR 0x0A]], None)"
  by code_simp

subsection \<open>The end of a run\<close>

lemma failure_message_names_url: "\<exists>a b. failure_message url = a @ url @ b"
  unfolding failure_message_def by (metis append.assoc)

text \<open>
  What \<open>main\<close> does once the arguments are accepted and the output is open: the
  records written by \<open>checkPublications\<close> stay; an exception there or in the closing
  of the output is logged with the URL of the feed and the function returns
  \<^verbatim>\<open>False\<close>, otherwise it returns \<^verbatim>\<open>True\<close>. Run as a script this gives the
  status 0 after a run without exception and 255 otherwise; run through the console
  script it gives 1 and 0.
\<close>

lemma main_try_block:
  assumes "length args \<le> 2"
    and "\<forall>path. output_file opts = Some path \<longrightarrow> path = [] \<or> writable w path"
    and "url = (if length args = 2 then args ! 1 else defaultURL)"
    and "formatter =
           (if suggest opts
            then (if csv opts then CSVLookupFormatter else PlainLookupFormatter)
            else (if csv opts then CSVFormatter else PlainFormatter))"
    and "checkPublications w url formatter = (out, err)"
  shows "written (main w opts args) = out \<and>
         (err = None \<and> closes w out \<longrightarrow>
            logged (main w opts args) = [] \<and> closed (main w opts args) \<and>
            script_status (main w opts args) = 0 \<and>
            console_script_status (main w opts args) = 1) \<and>
         (err \<noteq> None \<or> \<not> closes w out \<longrightarrow>
            logged (main w opts args) = [failure_message url] \<and>
            script_status (main w opts args) = 255 \<and>
            console_script_status (main w opts args) = 0)"
proof -
  have opens: "\<not> (case output_file opts of None \<Rightarrow> False
                   | Some path \<Rightarrow> path \<noteq> [] \<and> \<not> writable w path)"
    using assms(2) by (auto split: option.splits)
  show ?thesis
  proof (cases err)
    case None
    with assms opens show ?thesis
      by (simp add: main_def Let_def script_status_def console_script_status_def sys_exit_def)
  next
    case (Some e)
    with assms opens show ?thesis
      by (simp add: main_def Let_def script_status_def console_script_status_def sys_exit_def)
  qed
qed

text \<open>
  C8. The exit status follows the claim when the module is run as a script. The
  command \<^verbatim>\<open>badpubs\<close> declared in \<^verbatim>\<open>setup.py\<close> passes the truth value that \<open>main\<close>
  returns to \<^verbatim>\<open>sys.exit\<close>: a run without error ends with status 1, and a run
  whose feed cannot be fetched logs the failure and ends with status 0.
\<close>

theorem console_script_status_evaluated:
  "ending (main probe_world plain_options [''badpubs'']) = Returned True \<and>
   console_script_status (main probe_world plain_options [''badpubs'']) = 1 \<and>
   script_status (main probe_world plain_options [''badpubs'']) = 0 \<and>
   ending (main feed_down_world plain_options [''badpubs'']) = Returned False \<and>
   logged (main feed_down_world plain_options [''badpubs'']) = [failure_message defaultURL] \<and>
   console_script_status (main feed_down_world plain_options [''badpubs'']) = 0 \<and>
   script_status (main feed_down_world plain_options [''badpubs'']) = 255"
  by code_simp

subsection \<open>The CSV reader reads what the writer wrote\<close>

lemma in_quoted:
  "CHR 0x00 \<notin> set d \<Longrightarrow> length (acc @ d) \<le> field_limit \<Longrightarrow>
   reader_feed (IN_QUOTED_FIELD, acc, flds, rws) (csv_double d @ rest) =
     reader_feed (IN_QUOTED_FIELD, acc @ d, flds, rws) rest"
proof (induction d arbitrary: acc)
  case Nil
  show ?case by (simp add: csv_double_def)
next
  case (Cons c d)
  then have ih: "reader_feed (IN_QUOTED_FIELD, acc @ [c], flds, rws) (csv_double d @ rest) =
     reader_feed (IN_QUOTED_FIELD, (acc @ [c]) @ d, flds, rws) rest"
    by simp
  have room: "\<not> field_limit \<le> length acc" using Cons.prems by simp
  have c: "c \<noteq> CHR 0x00" using Cons.prems by auto
  have unfold: "csv_double (x # d) = (if x = CHR 0x22 then [CHR 0x22, CHR 0x22] else [x]) @ csv_double d"
    for x by (simp add: csv_double_def)
  show ?case
  proof (cases "c = CHR 0x22")
    case True
    with ih room show ?thesis by (simp add: unfold add_char_def)
  next
    case False
    with c ih room show ?thesis by (auto simp: unfold add_char_def)
  qed
qed

lemma in_field:
  "\<not> list_ex csv_special d \<Longrightarrow> CHR 0x00 \<notin> set d \<Longrightarrow>
   length (acc @ d) \<le> field_limit \<Longrightarrow>
   reader_feed (IN_FIELD, acc, flds, rws) (d @ rest) =
     reader_feed (IN_FIELD, acc @ d, flds, rws) rest"
proof (induction d arbitrary: acc)
  case Nil
  show ?case by simp
next
  case (Cons c d)
  from Cons.prems have "reader_feed (IN_FIELD, acc @ [c], flds, rws) (d @ rest) =
     reader_feed (IN_FIELD, (acc @ [c]) @ d, flds, rws) rest"
    by (intro Cons.IH) simp_all
  with Cons.prems show ?case by (auto simp: csv_special_def add_char_def)
qed

lemma csv_data_no_nul: "CHR 0x00 \<notin> set (csv_data f)"
  unfolding csv_data_def by (induction f) auto

lemma field_start:
  assumes "st = START_RECORD \<or> st = START_FIELD"
    and "length (csv_data f) \<le> field_limit"
    and "csv_data f \<noteq> [] \<or> qe \<or> st = START_FIELD"
  shows "\<exists>st'. st' \<noteq> START_RECORD \<and> st' \<noteq> IN_QUOTED_FIELD \<and> st' \<noteq> EAT_CRNL \<and>
           (\<forall>rest. reader_feed (st, [], flds, rws) (csv_field qe f @ rest) =
                   reader_feed (st', csv_data f, flds, rws) rest)"
proof -
  let ?d = "csv_data f"
  note nn = csv_data_no_nul [of f]
  show ?thesis
  proof (cases "list_ex csv_special ?d \<or> (?d = [] \<and> qe)")
    case True
    then have cf: "csv_field qe f = CHR 0x22 # csv_double ?d @ [CHR 0x22]"
      by (auto simp: csv_field_def Let_def)
    have "reader_feed (st, [], flds, rws) (csv_field qe f @ rest) =
            reader_feed (QUOTE_IN_QUOTED_FIELD, ?d, flds, rws) rest" for rest
      using assms(1,2) in_quoted [OF nn, of "[]" flds rws "CHR 0x22 # rest"]
      by (auto simp: cf start_field_def)
    then show ?thesis by blast
  next
    case False
    then have cf: "csv_field qe f = ?d" by (auto simp: csv_field_def Let_def)
    show ?thesis
    proof (cases ?d)
      case Nil
      with assms False have "st = START_FIELD" by auto
      with cf Nil show ?thesis by (intro exI [of _ START_FIELD]) simp
    next
      case (Cons c d')
      with False nn have c: "\<not> csv_special c" "c \<noteq> CHR 0x00"
        and d': "\<not> list_ex csv_special d'" "CHR 0x00 \<notin> set d'" by auto
      have lim: "length ([c] @ d') \<le> field_limit" using assms(2) Cons by simp
      then have "0 < field_limit" by simp
      with c have first: "process_char c (st, [], flds, rws) = Some (IN_FIELD, [c], flds, rws)"
        using assms(1) by (auto simp: start_field_def csv_special_def add_char_def)
      have "reader_feed (st, [], flds, rws) (csv_field qe f @ rest) =
            reader_feed (IN_FIELD, ?d, flds, rws) rest" for rest
        using first c in_field [OF d' lim, of flds rws rest]
        by (simp add: cf Cons csv_special_def)
      then show ?thesis by blast
    qed
  qed
qed

lemma field_comma:
  assumes "st = START_RECORD \<or> st = START_FIELD"
    and "length (csv_data f) \<le> field_limit"
  shows "reader_feed (st, [], flds, rws) (csv_field qe f @ CHR '','' # rest) =
           reader_feed (START_FIELD, [], flds @ [csv_data f], rws) rest"
proof (cases "csv_data f \<noteq> [] \<or> qe \<or> st = START_FIELD")
  case True
  from field_start [OF assms True, of flds rws] obtain st'
    where st': "st' \<noteq> START_RECORD" "st' \<noteq> IN_QUOTED_FIELD" "st' \<noteq> EAT_CRNL"
      and feed: "\<And>rest. reader_feed (st, [], flds, rws) (csv_field qe f @ rest) =
                   reader_feed (st', csv_data f, flds, rws) rest" by blast
  show ?thesis
    using st' by (cases st') (simp_all add: feed start_field_def)
next
  case False
  then have "csv_data f = []" "\<not> qe" "st = START_RECORD" using assms(1) by auto
  then show ?thesis by (simp add: csv_field_def start_field_def)
qed

lemma field_crlf:
  assumes "st = START_FIELD \<or> (st = START_RECORD \<and> (csv_data f = [] \<longrightarrow> qe))"
    and "length (csv_data f) \<le> field_limit"
  shows "reader_feed (st, [], flds, rws) (csv_field qe f @ CHR 0x0D # CHR 0x0A # rest) =
           reader_feed (START_RECORD, [], [], rws @ [flds @ [csv_data f]]) rest"
proof -
  have a: "st = START_RECORD \<or> st = START_FIELD"
    and b: "csv_data f \<noteq> [] \<or> qe \<or> st = START_FIELD"
    using assms(1) by auto
  from field_start [OF a assms(2) b, of flds rws] obtain st'
    where st': "st' \<noteq> START_RECORD" "st' \<noteq> IN_QUOTED_FIELD" "st' \<noteq> EAT_CRNL"
      and feed: "\<And>rest. reader_feed (st, [], flds, rws) (csv_field qe f @ rest) =
                   reader_feed (st', csv_data f, flds, rws) rest" by blast
  show ?thesis
    using st' by (cases st') (simp_all add: feed start_field_def)
qed

lemma row_fields:
  assumes "fs \<noteq> []"
    and "st = START_FIELD \<or> (st = START_RECORD \<and> (length fs = 1 \<and> csv_data (hd fs) = [] \<longrightarrow> qe))"
    and "\<forall>f \<in> set fs. length (csv_data f) \<le> field_limit"
  shows "reader_feed (st, [], flds, rws)
           (join '','' (map (csv_field qe) fs) @ CHR 0x0D # CHR 0x0A # rest) =
         reader_feed (START_RECORD, [], [], rws @ [flds @ map csv_data fs]) rest"
  using assms
proof (induction fs arbitrary: st flds)
  case Nil
  then show ?case by simp
next
  case (Cons f fs)
  have lim: "length (csv_data f) \<le> field_limit" using Cons.prems(3) by simp
  show ?case
  proof (cases fs)
    case Nil
    have "st = START_FIELD \<or> (st = START_RECORD \<and> (csv_data f = [] \<longrightarrow> qe))"
      using Cons.prems(2) Nil by simp
    from field_crlf [OF this lim] show ?thesis by (simp add: Nil)
  next
    case (Cons g gs)
    have st: "st = START_RECORD \<or> st = START_FIELD" using Cons.prems(2) by blast
    have "reader_feed (st, [], flds, rws)
            (join '','' (map (csv_field qe) (f # fs)) @ CHR 0x0D # CHR 0x0A # rest) =
          reader_feed (START_FIELD, [], flds @ [csv_data f], rws)
            (join '','' (map (csv_field qe) fs) @ CHR 0x0D # CHR 0x0A # rest)"
      using field_comma [OF st lim, of flds rws qe] by (simp add: Cons)
    also have "\<dots> = reader_feed (START_RECORD, [], [],
                        rws @ [(flds @ [csv_data f]) @ map csv_data fs]) rest"
      using Cons.prems(3) by (intro Cons.IH) (simp_all add: Cons)
    finally show ?thesis by simp
  qed
qed

lemma read_row:
  assumes "\<forall>f \<in> set row. length (csv_data f) \<le> field_limit"
  shows "reader_feed (START_RECORD, [], [], rws) (writerow row @ rest) =
     reader_feed (START_RECORD, [], [], rws @ [map csv_data row]) rest"
proof (cases row)
  case Nil
  then show ?thesis by (simp add: writerow_def)
next
  case (Cons f fs)
  then have "row \<noteq> []" by simp
  from row_fields [OF this _ assms, of START_RECORD "length row = 1" "[]" rws rest]
  show ?thesis by (simp add: writerow_def)
qed

lemma read_rows:
  "\<forall>row \<in> set rows. \<forall>f \<in> set row. length (csv_data f) \<le> field_limit \<Longrightarrow>
   reader_feed (START_RECORD, [], [], rws) (concat (map writerow rows) @ rest) =
     reader_feed (START_RECORD, [], [], rws @ map (map csv_data) rows) rest"
  by (induction rows arbitrary: rws) (simp_all add: read_row)

lemma csv_read_written:
  "\<forall>row \<in> set rows. \<forall>f \<in> set row. length (csv_data f) \<le> field_limit \<Longrightarrow>
   csv_read (concat (map writerow rows)) = Some (map (map csv_data) rows)"
  using read_rows [of rows "[]" "[]"] by (simp add: csv_read_def)

lemma csv_read_nul:
  "csv_read (writerow [[CHR ''a'', CHR 0x00, CHR ''b''], ''c'']) = Some [[''a'', ''c'']]"
proof -
  have "csv_read (concat (map writerow [[[CHR ''a'', CHR 0x00, CHR ''b''], ''c'']])) =
          Some (map (map csv_data) [[[CHR ''a'', CHR 0x00, CHR ''b''], ''c'']])"
    by (rule csv_read_written) (simp add: csv_data_def field_limit_def)
  then show ?thesis by (simp add: csv_data_def)
qed

subsection \<open>The encoding of text\<close>

































end
